theory Spec2Isabelle
  imports Complex_Main "HOL-Library.Word"
begin

section \<open>Data model\<close>

text \<open>
  Errors of the pipeline as values. Each constructor stands for one way the Python
  code stops with an exception:
  \<^item> \<open>UnsupportedFormat\<close>: \<^verbatim>\<open>ValueError("Unsupported format: ...")\<close> in \<^verbatim>\<open>load_animation\<close>;
  \<^item> \<open>EmptyAnimation\<close>: \<^verbatim>\<open>RuntimeError("Image contained no frames.")\<close> in \<^verbatim>\<open>load_animation\<close>;
  \<^item> \<open>ResolutionTooLow\<close>: \<^verbatim>\<open>ValueError("Input resolution ... is below minimum ...")\<close>;
  \<^item> \<open>CompressionBudgetUnreachable\<close>: \<^verbatim>\<open>RuntimeError("Could not compress to target size ...")\<close>;
  \<^item> \<open>SliceStepZero\<close>: the \<^verbatim>\<open>ValueError\<close> of a slice \<^verbatim>\<open>xs[::0]\<close>;
  \<^item> \<open>IndexError\<close>: a list read or write out of range;
  \<^item> \<open>FileNotFoundError\<close>: \<^verbatim>\<open>stat\<close>, \<^verbatim>\<open>replace\<close> or \<^verbatim>\<open>unlink\<close> of a path that holds no file;
  \<^item> \<open>EncodingFailure\<close>: an exception raised inside the imaging library
    (quantizer or GIF writer), which the code never catches.
\<close>

datatype error =
    UnsupportedFormat
  | EmptyAnimation
  | ResolutionTooLow
  | CompressionBudgetUnreachable
  | SliceStepZero
  | IndexError
  | FileNotFoundError
  | EncodingFailure

type_synonym rgba = "int \<times> int \<times> int \<times> int"
type_synonym rgb = "int \<times> int \<times> int"
type_synonym bytes = "8 word list"

text \<open>
  A decoded frame: the imaging library's image object with its mode, its size and its
  pixels (red, green, blue, alpha), as \<^verbatim>\<open>getdata()\<close> lists them.
\<close>

record image =
  im_mode :: string
  im_size :: "int \<times> int"
  im_pixels :: "rgba list"

text \<open>The image \<^verbatim>\<open>Image.merge("RGB", (r, g, b))\<close>: the colour channels without alpha.\<close>

record rgb_image =
  rgb_size :: "int \<times> int"
  rgb_pixels :: "rgb list"

text \<open>A paletted (mode \<^verbatim>\<open>P\<close>) image: a colour table and one palette index per pixel.\<close>

record pimage =
  pim_size :: "int \<times> int"
  pim_palette :: "rgb list"
  pim_data :: "int list"

text \<open>
  The dataclass \<^verbatim>\<open>Animation\<close>; the frame type is a parameter. The field
  \<^verbatim>\<open>size\<close> is \<open>size_a\<close> here.
\<close>

record 'f animation =
  frames :: "'f list"
  durations :: "int list"
  loop :: int
  size_a :: "int \<times> int"

section \<open>Frame-rate reducer\<close>

text \<open>
  Python's \<^verbatim>\<open>range(i, n, k)\<close> for a positive step: \<open>i, i + k, ...\<close> below \<open>n\<close>.
  (A step of zero never reaches this function: the slice raises first.)
\<close>

function range_step :: "nat \<Rightarrow> nat \<Rightarrow> nat \<Rightarrow> nat list" where
  "range_step i n k = (if 0 < k \<and> i < n then i # range_step (i + k) n k else [])"
  by pat_completeness auto
termination
  by (relation "measure (\<lambda>(i, n, k). n - i)") auto

declare range_step.simps [simp del]

text \<open>
  The extended slice \<^verbatim>\<open>xs[::k]\<close>: for \<open>k > 0\<close> the elements at \<open>0, k, 2k, ...\<close>;
  for \<open>k < 0\<close> the list is walked from its last element in steps of \<open>-k\<close>;
  \<open>k = 0\<close> raises.
\<close>

definition slice_step :: "'a list \<Rightarrow> int \<Rightarrow> error + 'a list" where
  "slice_step xs k =
     (if k = 0 then Inl SliceStepZero
      else if 0 < k then Inr (map (\<lambda>i. xs ! i) (range_step 0 (length xs) (nat k)))
      else Inr (map (\<lambda>i. rev xs ! i) (range_step 0 (length xs) (nat (- k)))))"

text \<open>
  \<^verbatim>\<open>
  def reduce_frames(frames, durations, factor):
      reduced_frames = frames[::factor]
      reduced_durations = [sum(durations[i:i+factor]) for i in range(0, len(durations), factor)]
      return reduced_frames, reduced_durations
  \<close>
  The slice is evaluated first, so a zero factor raises there. For a negative factor
  \<^verbatim>\<open>range(0, len(durations), factor)\<close> is empty. Durations are integers here, as
  the annotation \<^verbatim>\<open>List[int]\<close> declares them; \<^verbatim>\<open>sum\<close> is then exact.
\<close>

definition reduce_frames :: "'f list \<Rightarrow> int list \<Rightarrow> int \<Rightarrow> error + ('f list \<times> int list)" where
  "reduce_frames fs ds factor =
     (case slice_step fs factor of
        Inl e \<Rightarrow> Inl e
      | Inr reduced_frames \<Rightarrow>
          (let reduced_durations =
                 (if 0 < factor
                  then map (\<lambda>i. sum_list (take (nat factor) (drop i ds)))
                         (range_step 0 (length ds) (nat factor))
                  else [])
           in Inr (reduced_frames, reduced_durations)))"

section \<open>The imaging library and the file system\<close>

text \<open>
  What \<^verbatim>\<open>save\<close> is asked to write: the first paletted frame, the frames appended to
  it, and the keyword arguments of the call.
\<close>

record gif_job =
  job_first :: pimage
  job_append_images :: "pimage list"
  job_duration :: "int list"
  job_loop :: int
  job_disposal :: int
  job_transparency :: int
  job_optimize :: bool

text \<open>
  The GIF writer either writes the whole file (\<open>Written b\<close>), or raises after it has
  written the bytes \<open>b\<close> (\<open>WriteFailed b\<close>).
\<close>

datatype write_outcome = Written bytes | WriteFailed bytes

text \<open>
  The imaging library is not part of the repository: its operations are parameters.
  \<^item> \<open>lib_convert f m\<close> is \<^verbatim>\<open>f.convert(m)\<close>;
  \<^item> \<open>lib_resize f s\<close> is \<^verbatim>\<open>f.resize(s, Image.Resampling.LANCZOS)\<close>;
  \<^item> \<open>lib_quantize_colors i n\<close> is \<^verbatim>\<open>i.quantize(colors=n, method=Image.Quantize.MEDIANCUT)\<close>;
  \<^item> \<open>lib_quantize_palette i p\<close> is \<^verbatim>\<open>i.quantize(palette=p)\<close>;
  \<^item> \<open>lib_save_gif j\<close> is the encoder behind \<^verbatim>\<open>save(path, save_all=True, ...)\<close>.
  The quantizers may raise, which is the \<open>Inl\<close> result.
\<close>

record imaging =
  lib_convert :: "image \<Rightarrow> string \<Rightarrow> image"
  lib_resize :: "image \<Rightarrow> int \<times> int \<Rightarrow> image"
  lib_quantize_colors :: "rgb_image \<Rightarrow> int \<Rightarrow> error + pimage"
  lib_quantize_palette :: "rgb_image \<Rightarrow> pimage \<Rightarrow> error + pimage"
  lib_save_gif :: "gif_job \<Rightarrow> write_outcome"

text \<open>
  A path is its directory, the stem of its file name and its suffix;
  \<^verbatim>\<open>with_suffix\<close> replaces the suffix. The file system maps a path to the bytes
  of the file stored there.
\<close>

record path =
  path_parent :: string
  path_stem :: string
  path_suffix :: string

type_synonym filesystem = "path \<rightharpoonup> bytes"

definition with_suffix :: "path \<Rightarrow> string \<Rightarrow> path" where
  "with_suffix p s = p\<lparr>path_suffix := s\<rparr>"

text \<open>\<^verbatim>\<open>p.stat().st_size\<close>\<close>

definition stat_size :: "path \<Rightarrow> filesystem \<Rightarrow> error + nat" where
  "stat_size p fs = (case fs p of None \<Rightarrow> Inl FileNotFoundError | Some b \<Rightarrow> Inr (length b))"

text \<open>\<^verbatim>\<open>src.replace(dst)\<close>: the file moves to \<open>dst\<close>, overwriting what was there.\<close>

definition path_replace :: "path \<Rightarrow> path \<Rightarrow> filesystem \<Rightarrow> error + filesystem" where
  "path_replace src dst fs =
     (case fs src of
        None \<Rightarrow> Inl FileNotFoundError
      | Some b \<Rightarrow> Inr ((fs(src := None))(dst \<mapsto> b)))"

text \<open>\<^verbatim>\<open>p.unlink()\<close>\<close>

definition path_unlink :: "path \<Rightarrow> filesystem \<Rightarrow> error + filesystem" where
  "path_unlink p fs =
     (case fs p of
        None \<Rightarrow> Inl FileNotFoundError
      | Some b \<Rightarrow> Inr (fs(p := None)))"

text \<open>
  \<^verbatim>\<open>first.save(path, ...)\<close>. The library opens the path for writing, which empties a
  file that is already there, and the writer's bytes end up at the path. When the
  writer raises, the library removes the file if it has created it itself; a file
  that was there before stays, holding what was written until then.
\<close>

definition image_save :: "imaging \<Rightarrow> gif_job \<Rightarrow> path \<Rightarrow> filesystem \<Rightarrow> error option \<times> filesystem" where
  "image_save L job p fs =
     (case lib_save_gif L job of
        Written b \<Rightarrow> (None, fs(p \<mapsto> b))
      | WriteFailed b \<Rightarrow>
          (Some EncodingFailure, if fs p = None then fs else fs(p \<mapsto> b)))"

text \<open>Decimal rendering of an integer, as an f-string does it.\<close>

fun str_nat :: "nat \<Rightarrow> string" where
  "str_nat n =
     (if n < 10 then [char_of (48 + n)]
      else str_nat (n div 10) @ [char_of (48 + n mod 10)])"

declare str_nat.simps [simp del]

definition str_int :: "int \<Rightarrow> string" where
  "str_int i = (if i < 0 then CHR ''-'' # str_nat (nat (- i)) else str_nat (nat i))"

section \<open>Loading and resizing\<close>

text \<open>
  What \<^verbatim>\<open>Image.open\<close> gives: the format, the frames of the sequence, each with the
  \<^verbatim>\<open>duration\<close> entry of its \<^verbatim>\<open>info\<close> (if any), and the \<^verbatim>\<open>duration\<close> and
  \<^verbatim>\<open>loop\<close> entries of the image's own \<^verbatim>\<open>info\<close>. Durations are integers here, as
  \<^verbatim>\<open>Animation.durations\<close> is annotated; the loader itself converts nothing.
\<close>

record opened_image =
  img_format :: string
  img_sequence :: "(image \<times> int option) list"
  img_info_duration :: "int option"
  img_info_loop :: "int option"

definition load_animation :: "imaging \<Rightarrow> opened_image \<Rightarrow> error + image animation" where
  "load_animation L img =
     (if img_format img \<noteq> ''PNG'' then Inl UnsupportedFormat
      else
        (let fs = map (\<lambda>(frame, d). lib_convert L frame ''RGBA'') (img_sequence img);
             ds = map (\<lambda>(frame, d).
                         (case d of
                            Some x \<Rightarrow> x
                          | None \<Rightarrow> (case img_info_duration img of Some y \<Rightarrow> y | None \<Rightarrow> 40)))
                      (img_sequence img)
         in case fs of
              [] \<Rightarrow> Inl EmptyAnimation
            | first # _ \<Rightarrow>
                Inr \<lparr>frames = fs, durations = ds,
                     loop = (case img_info_loop img of Some l \<Rightarrow> l | None \<Rightarrow> 0),
                     size_a = im_size first\<rparr>))"

definition resize_animation :: "imaging \<Rightarrow> image animation \<Rightarrow> int \<times> int \<Rightarrow> image animation" where
  "resize_animation L anim target_size' =
     \<lparr>frames = map (\<lambda>frame. lib_resize L frame target_size') (frames anim),
      durations = durations anim,
      loop = loop anim,
      size_a = target_size'\<rparr>"

section \<open>Palette builder, indexer and transparency\<close>

definition processed_frame :: "imaging \<Rightarrow> image \<Rightarrow> image" where
  "processed_frame L frame =
     (if im_mode frame = ''RGBA'' then frame else lib_convert L frame ''RGBA'')"

text \<open>\<^verbatim>\<open>r, g, b, a = frame.split(); rgb = Image.merge("RGB", (r, g, b))\<close>\<close>

definition split_rgb :: "image \<Rightarrow> rgb_image" where
  "split_rgb frame =
     \<lparr>rgb_size = im_size frame,
      rgb_pixels = map (\<lambda>(r, g, b, a). (r, g, b)) (im_pixels frame)\<rparr>"

text \<open>\<^verbatim>\<open>list(a.getdata())\<close>\<close>

definition split_alpha :: "image \<Rightarrow> int list" where
  "split_alpha frame = map (\<lambda>(r, g, b, a). a) (im_pixels frame)"

text \<open>
  \<^verbatim>\<open>
  for j, alpha_val in enumerate(a_data):
      if alpha_val < alpha_threshold:
          p_data[j] = colors - 1
  \<close>
  started at index \<open>j\<close>; the assignment raises when \<open>j\<close> is not an index of \<open>p_data\<close>.
\<close>

fun mark_transparent :: "int list \<Rightarrow> int \<Rightarrow> int \<Rightarrow> nat \<Rightarrow> int list \<Rightarrow> error + int list" where
  "mark_transparent [] alpha_threshold colors j p_data = Inr p_data"
| "mark_transparent (alpha_val # rest) alpha_threshold colors j p_data =
     (if alpha_val < alpha_threshold then
        (if j < length p_data
         then mark_transparent rest alpha_threshold colors (Suc j) (p_data[j := colors - 1])
         else Inl IndexError)
      else mark_transparent rest alpha_threshold colors (Suc j) p_data)"

text \<open>Lines 82 to 89 for one frame: read the indices, overwrite, \<^verbatim>\<open>putdata\<close>.\<close>

definition apply_transparency :: "int \<Rightarrow> int \<Rightarrow> image \<Rightarrow> pimage \<Rightarrow> error + pimage" where
  "apply_transparency colors alpha_threshold frame p_frame =
     (case mark_transparent (split_alpha frame) alpha_threshold colors 0 (pim_data p_frame) of
        Inl e \<Rightarrow> Inl e
      | Inr d \<Rightarrow> Inr (p_frame\<lparr>pim_data := d\<rparr>))"

text \<open>
  The frames after the first: each is quantized against \<open>palette_img\<close>, the object
  the first frame's \<^verbatim>\<open>putdata\<close> has already written to.
\<close>

fun quantize_rest :: "imaging \<Rightarrow> int \<Rightarrow> int \<Rightarrow> pimage \<Rightarrow> image list \<Rightarrow> error + pimage list" where
  "quantize_rest L colors alpha_threshold palette_img [] = Inr []"
| "quantize_rest L colors alpha_threshold palette_img (frame # rest) =
     (case lib_quantize_palette L (split_rgb frame) palette_img of
        Inl e \<Rightarrow> Inl e
      | Inr p_frame \<Rightarrow>
          (case apply_transparency colors alpha_threshold frame p_frame of
             Inl e \<Rightarrow> Inl e
           | Inr pf \<Rightarrow>
               (case quantize_rest L colors alpha_threshold palette_img rest of
                  Inl e \<Rightarrow> Inl e
                | Inr pfs \<Rightarrow> Inr (pf # pfs))))"

text \<open>
  Lines 51 to 90 of \<^verbatim>\<open>save_as_gif\<close>: the list \<^verbatim>\<open>pal_frames\<close>. With no frame,
  \<^verbatim>\<open>all_pixels[0]\<close> raises.
\<close>

definition build_pal_frames :: "imaging \<Rightarrow> image animation \<Rightarrow> int \<Rightarrow> int \<Rightarrow> error + pimage list" where
  "build_pal_frames L animation colors alpha_threshold =
     (case map (processed_frame L) (frames animation) of
        [] \<Rightarrow> Inl IndexError
      | first # rest \<Rightarrow>
          (case lib_quantize_colors L (split_rgb first) (colors - 1) of
             Inl e \<Rightarrow> Inl e
           | Inr palette_img \<Rightarrow>
               (case apply_transparency colors alpha_threshold first palette_img of
                  Inl e \<Rightarrow> Inl e
                | Inr palette_img' \<Rightarrow>
                    (case quantize_rest L colors alpha_threshold palette_img' rest of
                       Inl e \<Rightarrow> Inl e
                     | Inr pfs \<Rightarrow> Inr (palette_img' # pfs)))))"

definition save_as_gif ::
  "imaging \<Rightarrow> image animation \<Rightarrow> path \<Rightarrow> int \<Rightarrow> int \<Rightarrow> filesystem \<Rightarrow> (error + nat) \<times> filesystem" where
  "save_as_gif L animation output_path colors alpha_threshold fs =
     (case build_pal_frames L animation colors alpha_threshold of
        Inl e \<Rightarrow> (Inl e, fs)
      | Inr pal_frames \<Rightarrow>
          (case pal_frames of
             [] \<Rightarrow> (Inl IndexError, fs)
           | first # rest \<Rightarrow>
               (case image_save L
                       \<lparr>job_first = first, job_append_images = rest,
                        job_duration = durations animation, job_loop = loop animation,
                        job_disposal = 2, job_transparency = colors - 1,
                        job_optimize = False\<rparr>
                       output_path fs of
                  (Some e, fs') \<Rightarrow> (Inl e, fs')
                | (None, fs') \<Rightarrow> (stat_size output_path fs', fs'))))"

section \<open>Size-constrained search\<close>

definition temp_path_of :: "path \<Rightarrow> int \<Rightarrow> int \<Rightarrow> path" where
  "temp_path_of output_path skip_factor colors =
     with_suffix output_path
       (''.temp'' @ str_int skip_factor @ ''f'' @ str_int colors @ ''c.gif'')"

text \<open>
  Lines 118 to 131: the candidate animation for a skip factor, encoded to the
  temporary path.
\<close>

definition evaluate_candidate ::
  "imaging \<Rightarrow> image animation \<Rightarrow> path \<Rightarrow> int \<Rightarrow> int \<Rightarrow> int \<Rightarrow> filesystem
     \<Rightarrow> (error + nat) \<times> filesystem" where
  "evaluate_candidate L animation temp_path alpha_threshold skip_factor colors fs =
     (case (if 1 < skip_factor
            then reduce_frames (frames animation) (durations animation) skip_factor
            else Inr (frames animation, durations animation)) of
        Inl e \<Rightarrow> (Inl e, fs)
      | Inr (processed_frames, processed_durations) \<Rightarrow>
          (case processed_frames of
             [] \<Rightarrow> (Inl IndexError, fs)
           | first # _ \<Rightarrow>
               save_as_gif L
                 \<lparr>frames = processed_frames, durations = processed_durations,
                  loop = loop animation, size_a = im_size first\<rparr>
                 temp_path colors alpha_threshold fs))"

text \<open>
  One entry of the log of evaluated candidates: skip factor, palette size, and what
  the encoder returned. The log is not in the source; it records, in order, the
  candidates the loop has evaluated.
\<close>

type_synonym attempt = "int \<times> int \<times> (error + nat)"

function search_loop ::
  "imaging \<Rightarrow> image animation \<Rightarrow> path \<Rightarrow> int \<Rightarrow> int \<Rightarrow> int \<Rightarrow> int \<Rightarrow> filesystem \<Rightarrow> attempt list
     \<Rightarrow> (error + path) \<times> filesystem \<times> attempt list" where
  "search_loop L animation output_path target_size_bytes alpha_threshold skip_factor colors fs attempts =
     (if skip_factor \<le> int (length (frames animation)) \<and> 64 \<le> colors then
        (case evaluate_candidate L animation (temp_path_of output_path skip_factor colors)
                alpha_threshold skip_factor colors fs of
           (Inl e, fs1) \<Rightarrow> (Inl e, fs1, attempts @ [(skip_factor, colors, Inl e)])
         | (Inr sz, fs1) \<Rightarrow>
             (if int sz \<le> target_size_bytes then
                (case path_replace (temp_path_of output_path skip_factor colors) output_path fs1 of
                   Inl e \<Rightarrow> (Inl e, fs1, attempts @ [(skip_factor, colors, Inr sz)])
                 | Inr fs2 \<Rightarrow> (Inr output_path, fs2, attempts @ [(skip_factor, colors, Inr sz)]))
              else
                (case path_unlink (temp_path_of output_path skip_factor colors) fs1 of
                   Inl e \<Rightarrow> (Inl e, fs1, attempts @ [(skip_factor, colors, Inr sz)])
                 | Inr fs2 \<Rightarrow>
                     search_loop L animation output_path target_size_bytes alpha_threshold
                       (skip_factor + 1) (max 64 (colors - 32)) fs2
                       (attempts @ [(skip_factor, colors, Inr sz)]))))
      else (Inl CompressionBudgetUnreachable, fs, attempts))"
  by pat_completeness auto
termination
  by (relation "measure (\<lambda>(L, animation, output_path, target_size_bytes, alpha_threshold,
                            skip_factor, colors, fs, attempts).
                    nat (int (length (frames animation)) + 1 - skip_factor))") auto

declare search_loop.simps [simp del]

definition compress_to_target_size ::
  "imaging \<Rightarrow> image animation \<Rightarrow> path \<Rightarrow> int \<Rightarrow> int \<Rightarrow> int \<Rightarrow> filesystem
     \<Rightarrow> (error + path) \<times> filesystem \<times> attempt list" where
  "compress_to_target_size L animation output_path target_size_bytes alpha_threshold
       min_resolution fs =
     (if fst (size_a animation) < min_resolution \<or> snd (size_a animation) < min_resolution
      then (Inl ResolutionTooLow, fs, [])
      else search_loop L animation output_path target_size_bytes alpha_threshold 1 256 fs [])"

section \<open>Contracts and concrete instances used in the statements\<close>

text \<open>
  What the code relies on from the quantizers: a returned paletted image has one
  index per pixel of the image it was made from, and every index points into its
  palette; \<^verbatim>\<open>quantize(colors=n)\<close> returns a palette of at most \<open>n\<close> colours;
  \<^verbatim>\<open>quantize(palette=p)\<close> returns an image with the palette of \<open>p\<close>.
\<close>

definition valid_indices :: "pimage \<Rightarrow> nat \<Rightarrow> bool" where
  "valid_indices q n \<longleftrightarrow>
     length (pim_data q) = n \<and>
     (\<forall>x \<in> set (pim_data q). 0 \<le> x \<and> x < int (length (pim_palette q)))"

definition quantizer_contract :: "imaging \<Rightarrow> bool" where
  "quantizer_contract L \<longleftrightarrow>
     (\<forall>img n q. lib_quantize_colors L img n = Inr q \<longrightarrow>
        valid_indices q (length (rgb_pixels img)) \<and> int (length (pim_palette q)) \<le> n) \<and>
     (\<forall>img p q. lib_quantize_palette L img p = Inr q \<longrightarrow>
        valid_indices q (length (rgb_pixels img)) \<and> pim_palette q = pim_palette p)"

text \<open>
  What the code relies on to get a result at all: median cut returns a paletted image
  with at least one colour for every colour count from 1 to 256, and quantizing
  against a reference image whose palette is not empty returns.
\<close>

definition quantizer_accepts :: "imaging \<Rightarrow> bool" where
  "quantizer_accepts L \<longleftrightarrow>
     (\<forall>img n. 1 \<le> n \<and> n \<le> 256 \<longrightarrow>
        (\<exists>q. lib_quantize_colors L img n = Inr q \<and> pim_palette q \<noteq> [])) \<and>
     (\<forall>img p. pim_palette p \<noteq> [] \<longrightarrow> (\<exists>q. lib_quantize_palette L img p = Inr q))"

text \<open>An attempt whose encoded size is above the budget, and one that was encoded at all.\<close>

definition over_budget :: "int \<Rightarrow> attempt \<Rightarrow> bool" where
  "over_budget target_size_bytes e =
     (case snd (snd e) of Inl _ \<Rightarrow> False | Inr sz \<Rightarrow> target_size_bytes < int sz)"



text \<open>
  A small stand-in for the imaging library, to run the model on concrete inputs:
  conversion and resizing only set the mode and the size, the quantizers map every
  pixel to index 0 of a one-colour palette (and reject a colour count outside
  \<open>1..256\<close>, or an empty reference palette), and the writer produces 100 bytes per
  frame.
\<close>

definition demo_lib :: imaging where
  "demo_lib =
     \<lparr>lib_convert = (\<lambda>f m. f\<lparr>im_mode := m\<rparr>),
      lib_resize = (\<lambda>f s. f\<lparr>im_size := s\<rparr>),
      lib_quantize_colors = (\<lambda>img n.
         if n < 1 \<or> 256 < n then Inl EncodingFailure
         else Inr \<lparr>pim_size = rgb_size img, pim_palette = [(0, 0, 0)],
                   pim_data = map (\<lambda>_. 0) (rgb_pixels img)\<rparr>),
      lib_quantize_palette = (\<lambda>img p.
         if pim_palette p = [] then Inl EncodingFailure
         else Inr \<lparr>pim_size = rgb_size img, pim_palette = pim_palette p,
                   pim_data = map (\<lambda>_. 0) (rgb_pixels img)\<rparr>),
      lib_save_gif = (\<lambda>job. Written (replicate (100 * (1 + length (job_append_images job))) 0))\<rparr>"


text \<open>Two-pixel RGBA frames: the first pixel opaque, the second transparent or faint.\<close>

definition frame_a :: image where
  "frame_a = \<lparr>im_mode = ''RGBA'', im_size = (2, 1),
              im_pixels = [(255, 0, 0, 255), (0, 0, 0, 0)]\<rparr>"

definition frame_b :: image where
  "frame_b = \<lparr>im_mode = ''RGBA'', im_size = (2, 1),
              im_pixels = [(0, 255, 0, 10), (0, 0, 255, 9)]\<rparr>"

definition demo_animation :: "image animation" where
  "demo_animation =
     \<lparr>frames = [frame_a, frame_b, frame_a, frame_b], durations = [40, 40, 40, 40],
      loop = 0, size_a = (2, 1)\<rparr>"

definition demo_output :: path where
  "demo_output = \<lparr>path_parent = ''out'', path_stem = ''emote'', path_suffix = ''.gif''\<rparr>"

section \<open>Properties of the frame-rate reducer\<close>

lemma range_step_sum:
  "0 < k \<Longrightarrow>
   sum_list (map (\<lambda>i. sum_list (take k (drop i ds))) (range_step i (length ds) k))
     = sum_list (drop i (ds :: int list))"
proof (induction i "length ds" k rule: range_step.induct)
  case (1 i k)
  show ?case
  proof (cases "i < length ds")
    case True
    have "take k (drop i ds) @ drop k (drop i ds) = drop i ds"
      by (rule append_take_drop_id)
    then have "sum_list (drop i ds) = sum_list (take k (drop i ds)) + sum_list (drop k (drop i ds))"
      by (metis sum_list_append)
    moreover have "drop k (drop i ds) = drop (i + k) ds" by (simp add: add.commute)
    ultimately show ?thesis using "1.hyps" "1.prems" True 
      by (subst range_step.simps) simp
  next
    case False
    then show ?thesis by (subst range_step.simps) simp
  qed
qed

lemma ceil_step:
  assumes k: "0 < k" and lt: "i < n"
  shows "(n - i + k - 1) div k = Suc ((n - (i + k) + k - 1) div (k::nat))"
proof -
  have step: "(a + k) div k = Suc (a div k)" for a
    using k by simp
  show ?thesis
  proof (cases "k \<le> n - i")
    case True
    define a where "a = n - i - 1"
    from True k lt have 1: "n - i + k - 1 = a + k" and 2: "n - (i + k) + k - 1 = a"
      by (simp_all add: a_def)
    show ?thesis unfolding 1 2 by (rule step)
  next
    case False
    define a where "a = n - i - 1"
    from False lt have 1: "n - i + k - 1 = a + k" and s: "a < k"
      by (simp_all add: a_def)
    from False k have 2: "n - (i + k) + k - 1 = k - 1" by simp
    have "(k - 1) div k = 0" using k by simp
    with s show ?thesis unfolding 1 2 by (simp only: step div_less)
  qed
qed

lemma range_step_length:
  "0 < k \<Longrightarrow> length (range_step i n k) = (n - i + k - 1) div k"
proof (induction i n k rule: range_step.induct)
  case (1 i n k)
  show ?case
  proof (cases "i < n")
    case True
    with "1.IH" "1.prems" ceil_step[of k i n] show ?thesis
      by (subst range_step.simps) simp
  next
    case False
    then have "n - i + k - 1 = k - 1" by arith
    with False "1.prems" show ?thesis
      by (subst range_step.simps) simp
  qed
qed

lemma range_step_nth:
  "0 < k \<Longrightarrow> j < length (range_step i n k) \<Longrightarrow> range_step i n k ! j = i + j * k"
proof (induction i n k arbitrary: j rule: range_step.induct)
  case (1 i n k)
  show ?case
  proof (cases "i < n")
    case True
    with "1.prems" have eq: "range_step i n k = i # range_step (i + k) n k"
      by (subst range_step.simps) simp
    show ?thesis
    proof (cases j)
      case 0
      then show ?thesis by (simp add: eq)
    next
      case (Suc j')
      with "1.prems" eq have "j' < length (range_step (i + k) n k)" by simp
      with "1.IH"[of j'] "1.prems" True have "range_step (i + k) n k ! j' = i + k + j' * k" by simp
      with Suc eq show ?thesis by simp
    qed
  next
    case False
    then have "range_step i n k = []" by (subst range_step.simps) simp
    with "1.prems" show ?thesis by simp
  qed
qed

lemma ceil_div_nat: "0 < k \<Longrightarrow> int ((n + k - 1) div k) = \<lceil>real n / real k\<rceil>"
proof -
  assume k: "0 < k"
  define q where "q = (n + k - 1) div k"
  define r where "r = (n + k - 1) mod k"
  have e: "n + k - 1 = q * k + r" by (simp add: q_def r_def)
  have r: "r < k" using k by (simp add: r_def)
  from e r k have up: "n \<le> q * k" by arith
  from e r k have lo: "q * k < n + k" by arith
  have kr: "0 < real k" using k by simp
  from up have "real n \<le> real q * real k" by (metis of_nat_le_iff of_nat_mult)
  then have a: "real n / real k \<le> real q" using kr by (simp add: divide_le_eq)
  from lo have "real q * real k < real n + real k" by (metis of_nat_less_iff of_nat_mult of_nat_add)
  then have "(real q - 1) * real k < real n" by (simp add: algebra_simps)
  then have b: "real q - 1 < real n / real k" using kr by (simp add: less_divide_eq)
  have "\<lceil>real n / real k\<rceil> = int q"
    by (rule ceiling_unique) (use a b in simp_all)
  then show ?thesis by (simp add: q_def)
qed


lemma slice_step_pos:
  "0 < k \<Longrightarrow> slice_step xs k = Inr (map (\<lambda>i. xs ! i) (range_step 0 (length xs) (nat k)))"
  by (simp add: slice_step_def)

lemma reduce_frames_pos:
  "0 < k \<Longrightarrow>
   reduce_frames fs ds k =
     Inr (map (\<lambda>i. fs ! i) (range_step 0 (length fs) (nat k)),
          map (\<lambda>i. sum_list (take (nat k) (drop i ds))) (range_step 0 (length ds) (nat k)))"
  by (simp add: reduce_frames_def slice_step_pos)

text \<open>
  Total playback time. On integer durations, the type the code declares for them,
  the reducer returns for every skip factor \<open>k \<ge> 1\<close>, and the durations it returns
  add up to exactly the sum of the original durations: each output duration is the
  sum of the durations of its group, and the groups partition the original list.
  This is a statement about integers only. The durations the loader stores for an
  animated PNG are the imaging library's floating-point values, whose sums round;
  they are outside this model, and nothing is said here about them.
\<close>

lemma reduce_frames_conserves_duration:
  "1 \<le> k \<Longrightarrow>
   \<exists>rf rd. reduce_frames fs ds k = Inr (rf, rd) \<and> sum_list rd = sum_list ds"
proof -
  assume k: "1 \<le> k"
  then have pos: "0 < nat k" by simp
  from k have "0 < k" by simp
  then show ?thesis
    using range_step_sum [OF pos, of ds 0] by (simp add: reduce_frames_pos)
qed

text \<open>
  Claim C6. For an animation with \<open>n\<close> frames (and as many durations) and a skip
  factor \<open>k \<ge> 1\<close>, the reducer returns \<open>\<lceil>n / k\<rceil>\<close> frames, the \<open>j\<close>-th of them the
  original frame at position \<open>j * k\<close>, and a duration list of the same length whose
  \<open>j\<close>-th entry is the sum of the original durations at positions
  \<open>j * k, ..., j * k + k - 1\<close> (as far as they exist).
\<close>

theorem reduce_frames_frame_count:
  assumes k: "1 \<le> k" and len: "length ds = length fs"
  shows "\<exists>rf rd. reduce_frames fs ds k = Inr (rf, rd)
           \<and> int (length rf) = \<lceil>real (length fs) / real_of_int k\<rceil>
           \<and> length rd = length rf
           \<and> (\<forall>j < length rf. rf ! j = fs ! (j * nat k))
           \<and> (\<forall>j < length rd. rd ! j = sum_list (take (nat k) (drop (j * nat k) ds)))"
proof -
  from k have pos: "0 < nat k" and kpos: "0 < k" by simp_all
  let ?idx = "range_step 0 (length fs) (nat k)"
  have L: "length ?idx = (length fs + nat k - 1) div nat k"
    using range_step_length [OF pos, of 0 "length fs"] by simp
  have "int ((length fs + nat k - 1) div nat k) = \<lceil>real (length fs) / real (nat k)\<rceil>"
    by (rule ceil_div_nat [OF pos])
  moreover have "real (nat k) = real_of_int k" using kpos by simp
  ultimately have C: "int (length ?idx) = \<lceil>real (length fs) / real_of_int k\<rceil>"
    using L by simp
  have N: "?idx ! j = j * nat k" if "j < length ?idx" for j
    using range_step_nth [OF pos that] by simp
  show ?thesis
    using kpos C N len by (simp add: reduce_frames_pos)
qed

theorem reduce_frames_frame_count_witness:
  "(1::int) \<le> 2 \<and> length [40, 50, 60 :: int] = length ''abc'' \<and>
   (\<exists>rf rd. reduce_frames ''abc'' [40, 50, 60] 2 = Inr (rf, rd)
           \<and> int (length rf) = 2
           \<and> length rd = length rf
           \<and> (\<forall>j < length rf. rf ! j = ''abc'' ! (j * 2))
           \<and> (\<forall>j < length rd. rd ! j = sum_list (take 2 (drop (j * 2) [40, 50, 60]))))"
proof -
  have c: "\<lceil>real (length ''abc'') / real_of_int 2\<rceil> = 2"
    by (simp add: ceiling_eq_iff)
  show ?thesis
    using reduce_frames_frame_count [of 2 "[40, 50, 60]" "''abc''"] c by simp
qed

section \<open>Properties of resizing and loading\<close>

text \<open>
  Claim C10. Resizing changes only pixel dimensions: the result has as many frames
  as the input, each the library's resize of the input frame at the same position,
  the same durations and the same loop count, and its canvas size is the target
  size; when the library's resize returns frames of the size it was asked for,
  every frame of the result has the target size.
\<close>

theorem resize_animation_frame:
  assumes "\<forall>f \<in> set (frames anim). im_size (lib_resize L f ts) = ts"
  shows "length (frames (resize_animation L anim ts)) = length (frames anim)
       \<and> durations (resize_animation L anim ts) = durations anim
       \<and> loop (resize_animation L anim ts) = loop anim
       \<and> size_a (resize_animation L anim ts) = ts
       \<and> (\<forall>i < length (frames anim).
             frames (resize_animation L anim ts) ! i = lib_resize L (frames anim ! i) ts)
       \<and> (\<forall>f \<in> set (frames (resize_animation L anim ts)). im_size f = ts)"
  using assms by (simp add: resize_animation_def)

theorem resize_animation_frame_witness:
  "list_all (\<lambda>f. im_size (lib_resize demo_lib f (1000, 1000)) = (1000, 1000))
     (frames demo_animation)
   \<and> length (frames (resize_animation demo_lib demo_animation (1000, 1000))) = 4
   \<and> durations (resize_animation demo_lib demo_animation (1000, 1000)) = [40, 40, 40, 40]
   \<and> loop (resize_animation demo_lib demo_animation (1000, 1000)) = 0
   \<and> size_a (resize_animation demo_lib demo_animation (1000, 1000)) = (1000, 1000)
   \<and> list_all (\<lambda>f. im_size f = (1000, 1000))
        (frames (resize_animation demo_lib demo_animation (1000, 1000)))"
proof -
  have h: "\<forall>f \<in> set (frames demo_animation).
             im_size (lib_resize demo_lib f (1000, 1000)) = (1000, 1000)"
    by (simp add: demo_animation_def demo_lib_def)
  from resize_animation_frame [OF h] h show ?thesis
    by (simp add: demo_animation_def list_all_iff)
qed

section \<open>Properties of the palette builder and the transparency classifier\<close>

lemma mark_transparent_spec:
  "mark_transparent as t c j p = Inr p' \<Longrightarrow>
   length p' = length p
   \<and> (\<forall>m < j. p' ! m = p ! m)
   \<and> (\<forall>i < length as.
         (as ! i < t \<longrightarrow> p' ! (j + i) = c - 1)
       \<and> (t \<le> as ! i \<longrightarrow> p' ! (j + i) = p ! (j + i)))"
proof (induction as arbitrary: j p)
  case Nil
  then show ?case by simp
next
  case (Cons a as)
  show ?case
  proof (cases "a < t")
    case True
    with Cons.prems have j: "j < length p"
      and rec: "mark_transparent as t c (Suc j) (p[j := c - 1]) = Inr p'"
      by (simp_all split: if_splits)
    from Cons.IH [OF rec] have len: "length p' = length p"
      and low: "\<forall>m < Suc j. p' ! m = p[j := c - 1] ! m"
      and ih: "\<forall>i < length as.
                 (as ! i < t \<longrightarrow> p' ! (Suc j + i) = c - 1)
               \<and> (t \<le> as ! i \<longrightarrow> p' ! (Suc j + i) = p[j := c - 1] ! (Suc j + i))"
      by simp_all
    from low j have here: "p' ! j = c - 1" by simp
    from low have below: "\<forall>m < j. p' ! m = p ! m" by simp
    have "(a # as) ! i < t \<longrightarrow> p' ! (j + i) = c - 1"
      and "t \<le> (a # as) ! i \<longrightarrow> p' ! (j + i) = p ! (j + i)"
      if "i < length (a # as)" for i
      using that ih here True by (cases i; simp)+
    with len below show ?thesis by blast
  next
    case False
    with Cons.prems have rec: "mark_transparent as t c (Suc j) p = Inr p'"
      by simp
    from Cons.IH [OF rec] have len: "length p' = length p"
      and low: "\<forall>m < Suc j. p' ! m = p ! m"
      and ih: "\<forall>i < length as.
                 (as ! i < t \<longrightarrow> p' ! (Suc j + i) = c - 1)
               \<and> (t \<le> as ! i \<longrightarrow> p' ! (Suc j + i) = p ! (Suc j + i))"
      by simp_all
    from low have here: "p' ! j = p ! j" and below: "\<forall>m < j. p' ! m = p ! m" by simp_all
    have "(a # as) ! i < t \<longrightarrow> p' ! (j + i) = c - 1"
      and "t \<le> (a # as) ! i \<longrightarrow> p' ! (j + i) = p ! (j + i)"
      if "i < length (a # as)" for i
      using that ih here False by (cases i; simp)+
    with len below show ?thesis by blast
  qed
qed

lemma apply_transparency_spec:
  assumes "apply_transparency N t frame q = Inr q'"
  shows "pim_palette q' = pim_palette q" and "pim_size q' = pim_size q"
    and "length (pim_data q') = length (pim_data q)"
    and "j < length (im_pixels frame) \<Longrightarrow> split_alpha frame ! j < t \<Longrightarrow> pim_data q' ! j = N - 1"
    and "j < length (im_pixels frame) \<Longrightarrow> t \<le> split_alpha frame ! j \<Longrightarrow> pim_data q' ! j = pim_data q ! j"
proof -
  from assms obtain d where d: "mark_transparent (split_alpha frame) t N 0 (pim_data q) = Inr d"
    and q': "q' = q\<lparr>pim_data := d\<rparr>"
    by (auto simp: apply_transparency_def split: sum.splits)
  from q' show "pim_palette q' = pim_palette q" and "pim_size q' = pim_size q" by simp_all
  from mark_transparent_spec [OF d] have len: "length d = length (pim_data q)"
    and ix: "\<forall>i < length (split_alpha frame).
               (split_alpha frame ! i < t \<longrightarrow> d ! i = N - 1)
             \<and> (t \<le> split_alpha frame ! i \<longrightarrow> d ! i = pim_data q ! i)"
    by simp_all
  from len q' show "length (pim_data q') = length (pim_data q)" by simp
  have la: "length (split_alpha frame) = length (im_pixels frame)" by (simp add: split_alpha_def)
  from ix la q' show "j < length (im_pixels frame) \<Longrightarrow> split_alpha frame ! j < t \<Longrightarrow> pim_data q' ! j = N - 1"
    by simp
  from ix la q' show "j < length (im_pixels frame) \<Longrightarrow> t \<le> split_alpha frame ! j \<Longrightarrow> pim_data q' ! j = pim_data q ! j"
    by simp
qed

lemma quantize_rest_all2:
  "quantize_rest L N t ref rest = Inr qs \<longleftrightarrow>
   list_all2 (\<lambda>frame pf. \<exists>q. lib_quantize_palette L (split_rgb frame) ref = Inr q
                            \<and> apply_transparency N t frame q = Inr pf) rest qs"
proof (induction rest arbitrary: qs)
  case Nil
  then show ?case by auto
next
  case (Cons frame rest)
  show ?case
    by (cases qs) (auto simp: Cons.IH [symmetric] split: sum.splits)
qed

lemma quantize_rest_nth:
  "quantize_rest L N t ref rest = Inr qs \<longleftrightarrow>
   length qs = length rest
   \<and> (\<forall>i < length rest. \<exists>q. lib_quantize_palette L (split_rgb (rest ! i)) ref = Inr q
                              \<and> apply_transparency N t (rest ! i) q = Inr (qs ! i))"
  unfolding quantize_rest_all2 list_all2_conv_all_nth by auto

lemma build_pal_frames_iff:
  "build_pal_frames L a N t = Inr pfs \<longleftrightarrow>
   (\<exists>first rest palette_img ref qs.
        map (processed_frame L) (frames a) = first # rest
      \<and> lib_quantize_colors L (split_rgb first) (N - 1) = Inr palette_img
      \<and> apply_transparency N t first palette_img = Inr ref
      \<and> quantize_rest L N t ref rest = Inr qs
      \<and> pfs = ref # qs)"
  by (auto simp: build_pal_frames_def split: list.splits sum.splits)

lemma demo_lib_contract: "quantizer_contract demo_lib"
  by (auto simp: quantizer_contract_def demo_lib_def valid_indices_def split: if_splits)




lemma build_pal_frames_structure:
  "build_pal_frames L a N t = Inr pfs \<longleftrightarrow>
   (\<exists>first rest palette_img ref qs.
        map (processed_frame L) (frames a) = first # rest
      \<and> lib_quantize_colors L (split_rgb first) (N - 1) = Inr palette_img
      \<and> apply_transparency N t first palette_img = Inr ref
      \<and> pim_palette ref = pim_palette palette_img
      \<and> length qs = length rest
      \<and> (\<forall>i < length rest.
            \<exists>q. lib_quantize_palette L (split_rgb (rest ! i)) ref = Inr q
               \<and> apply_transparency N t (rest ! i) q = Inr (qs ! i)
               \<and> pim_palette (qs ! i) = pim_palette q)
      \<and> pfs = ref # qs)"
proof
  assume "build_pal_frames L a N t = Inr pfs"
  then obtain first rest palette_img ref qs where
    fr: "map (processed_frame L) (frames a) = first # rest"
    and pal: "lib_quantize_colors L (split_rgb first) (N - 1) = Inr palette_img"
    and ref: "apply_transparency N t first palette_img = Inr ref"
    and qr: "quantize_rest L N t ref rest = Inr qs"
    and pfs: "pfs = ref # qs"
    unfolding build_pal_frames_iff by (elim exE conjE)
  from qr have lq: "length qs = length rest"
    and each: "\<forall>i < length rest. \<exists>q. lib_quantize_palette L (split_rgb (rest ! i)) ref = Inr q
                              \<and> apply_transparency N t (rest ! i) q = Inr (qs ! i)"
    unfolding quantize_rest_nth by simp_all
  from each have each': "\<forall>i < length rest.
            \<exists>q. lib_quantize_palette L (split_rgb (rest ! i)) ref = Inr q
               \<and> apply_transparency N t (rest ! i) q = Inr (qs ! i)
               \<and> pim_palette (qs ! i) = pim_palette q"
    using apply_transparency_spec(1) by blast
  have "pim_palette ref = pim_palette palette_img"
    by (rule apply_transparency_spec(1) [OF ref])
  with fr pal ref lq each' pfs show
    "\<exists>first rest palette_img ref qs.
        map (processed_frame L) (frames a) = first # rest
      \<and> lib_quantize_colors L (split_rgb first) (N - 1) = Inr palette_img
      \<and> apply_transparency N t first palette_img = Inr ref
      \<and> pim_palette ref = pim_palette palette_img
      \<and> length qs = length rest
      \<and> (\<forall>i < length rest.
            \<exists>q. lib_quantize_palette L (split_rgb (rest ! i)) ref = Inr q
               \<and> apply_transparency N t (rest ! i) q = Inr (qs ! i)
               \<and> pim_palette (qs ! i) = pim_palette q)
      \<and> pfs = ref # qs"
    by (intro exI [of _ first] exI [of _ rest] exI [of _ palette_img] exI [of _ ref]
          exI [of _ qs]) simp
next
  assume "\<exists>first rest palette_img ref qs.
        map (processed_frame L) (frames a) = first # rest
      \<and> lib_quantize_colors L (split_rgb first) (N - 1) = Inr palette_img
      \<and> apply_transparency N t first palette_img = Inr ref
      \<and> pim_palette ref = pim_palette palette_img
      \<and> length qs = length rest
      \<and> (\<forall>i < length rest.
            \<exists>q. lib_quantize_palette L (split_rgb (rest ! i)) ref = Inr q
               \<and> apply_transparency N t (rest ! i) q = Inr (qs ! i)
               \<and> pim_palette (qs ! i) = pim_palette q)
      \<and> pfs = ref # qs"
  then obtain first rest palette_img ref qs where
    fr: "map (processed_frame L) (frames a) = first # rest"
    and pal: "lib_quantize_colors L (split_rgb first) (N - 1) = Inr palette_img"
    and ref: "apply_transparency N t first palette_img = Inr ref"
    and lq: "length qs = length rest"
    and each: "\<forall>i < length rest.
            \<exists>q. lib_quantize_palette L (split_rgb (rest ! i)) ref = Inr q
               \<and> apply_transparency N t (rest ! i) q = Inr (qs ! i)
               \<and> pim_palette (qs ! i) = pim_palette q"
    and pfs: "pfs = ref # qs"
    by (elim exE conjE)
  from lq each have "quantize_rest L N t ref rest = Inr qs"
    unfolding quantize_rest_nth by blast
  with fr pal ref pfs show "build_pal_frames L a N t = Inr pfs"
    unfolding build_pal_frames_iff
    by (intro exI [of _ first] exI [of _ rest] exI [of _ palette_img] exI [of _ ref]
          exI [of _ qs]) simp
qed

lemma mark_transparent_succeeds:
  "j + length as \<le> length p \<Longrightarrow> \<exists>p'. mark_transparent as t c j p = Inr p'"
  by (induction as arbitrary: j p) auto

lemma apply_transparency_succeeds:
  "length (pim_data q) = length (im_pixels frame) \<Longrightarrow>
   \<exists>q'. apply_transparency N t frame q = Inr q'"
  using mark_transparent_succeeds [of 0 "split_alpha frame" "pim_data q" t N]
  by (auto simp: apply_transparency_def split_alpha_def)

lemma quantize_rest_succeeds:
  "(\<forall>f \<in> set rest. \<exists>q. lib_quantize_palette L (split_rgb f) ref = Inr q
                        \<and> length (pim_data q) = length (im_pixels f))
   \<Longrightarrow> \<exists>qs. quantize_rest L N t ref rest = Inr qs"
proof (induction rest)
  case Nil
  then show ?case by simp
next
  case (Cons f rest)
  then obtain q where q: "lib_quantize_palette L (split_rgb f) ref = Inr q"
    and l: "length (pim_data q) = length (im_pixels f)" by auto
  from apply_transparency_succeeds [OF l] obtain q' where q': "apply_transparency N t f q = Inr q'"
    by blast
  from Cons obtain qs where "quantize_rest L N t ref rest = Inr qs" by auto
  with q q' show ?case by simp
qed

lemma build_pal_frames_succeeds:
  assumes fr: "map (processed_frame L) (frames a) = first # rest"
    and pal: "lib_quantize_colors L (split_rgb first) (N - 1) = Inr palette_img"
    and l0: "length (pim_data palette_img) = length (im_pixels first)"
    and rest: "\<forall>f \<in> set rest. \<forall>ref. pim_palette ref = pim_palette palette_img \<longrightarrow>
                 (\<exists>q. lib_quantize_palette L (split_rgb f) ref = Inr q
                    \<and> length (pim_data q) = length (im_pixels f))"
  shows "\<exists>pfs. build_pal_frames L a N t = Inr pfs"
proof -
  from apply_transparency_succeeds [OF l0] obtain ref
    where ref: "apply_transparency N t first palette_img = Inr ref" by blast
  have "pim_palette ref = pim_palette palette_img"
    by (rule apply_transparency_spec(1) [OF ref])
  with rest have "\<forall>f \<in> set rest. \<exists>q. lib_quantize_palette L (split_rgb f) ref = Inr q
                        \<and> length (pim_data q) = length (im_pixels f)" by blast
  from quantize_rest_succeeds [OF this] obtain qs
    where "quantize_rest L N t ref rest = Inr qs" by blast
  with fr pal ref show ?thesis by (simp add: build_pal_frames_def)
qed

lemma demo_lib_accepts: "quantizer_accepts demo_lib"
  by (simp add: quantizer_accepts_def demo_lib_def)

lemma demo_build_two:
  "build_pal_frames demo_lib demo_animation 2 10 =
     Inr [\<lparr>pim_size = (2, 1), pim_palette = [(0, 0, 0)], pim_data = [0, 1]\<rparr>,
          \<lparr>pim_size = (2, 1), pim_palette = [(0, 0, 0)], pim_data = [0, 1]\<rparr>,
          \<lparr>pim_size = (2, 1), pim_palette = [(0, 0, 0)], pim_data = [0, 1]\<rparr>,
          \<lparr>pim_size = (2, 1), pim_palette = [(0, 0, 0)], pim_data = [0, 1]\<rparr>]"
  by (simp add: build_pal_frames_def demo_animation_def demo_lib_def frame_a_def frame_b_def
        processed_frame_def split_rgb_def split_alpha_def apply_transparency_def)

text \<open>
  Claim C5, as the code has it. The builder has no range check of its own on the
  palette size. For every \<open>N\<close> from 2 to 256 (not only the search's \<open>64..256\<close>) and
  every animation with at least one frame, with quantizers that keep their contract
  and accept colour counts from 1 to 256, it returns one paletted frame per input
  frame: the median-cut quantizer is asked once, for \<open>N - 1\<close> colours, on the RGB
  channels (alpha dropped) of the first frame alone and returns a palette of at most
  \<open>N - 1\<close> colours; the first paletted frame is that image after the transparency
  overwrite; every later frame is quantized against that same image; and all
  paletted frames carry that one palette. When the quantizer refuses the colour
  count, the builder fails with the quantizer's error.
\<close>

theorem shared_palette_from_first_frame:
  assumes contract: "quantizer_contract L" and accepts: "quantizer_accepts L"
    and N: "2 \<le> N" "N \<le> 256"
    and fr: "frames a = frame0 # others"
  shows "(\<exists>palette_img pfs.
            lib_quantize_colors L
              \<lparr>rgb_size = im_size (processed_frame L frame0),
               rgb_pixels = map (\<lambda>(r, g, b, a). (r, g, b)) (im_pixels (processed_frame L frame0))\<rparr>
              (N - 1) = Inr palette_img
          \<and> int (length (pim_palette palette_img)) \<le> N - 1
          \<and> build_pal_frames L a N t = Inr pfs
          \<and> length pfs = length (frames a)
          \<and> apply_transparency N t (processed_frame L frame0) palette_img = Inr (pfs ! 0)
          \<and> (\<forall>i < length pfs. pim_palette (pfs ! i) = pim_palette palette_img)
          \<and> (\<forall>i < length others. \<exists>q.
                lib_quantize_palette L
                  \<lparr>rgb_size = im_size (processed_frame L (others ! i)),
                   rgb_pixels = map (\<lambda>(r, g, b, a). (r, g, b))
                                  (im_pixels (processed_frame L (others ! i)))\<rparr>
                  (pfs ! 0) = Inr q
              \<and> apply_transparency N t (processed_frame L (others ! i)) q = Inr (pfs ! Suc i)))
       \<and> (\<forall>M e.
            lib_quantize_colors L
              \<lparr>rgb_size = im_size (processed_frame L frame0),
               rgb_pixels = map (\<lambda>(r, g, b, a). (r, g, b)) (im_pixels (processed_frame L frame0))\<rparr>
              (M - 1) = Inl e
            \<longrightarrow> build_pal_frames L a M t = Inl e)"
proof (rule conjI)
  let ?first = "processed_frame L frame0"
  let ?rest = "map (processed_frame L) others"
  have mp: "map (processed_frame L) (frames a) = ?first # ?rest" using fr by simp
  from N have "1 \<le> N - 1 \<and> N - 1 \<le> 256" by simp
  with accepts obtain palette_img where
    pal: "lib_quantize_colors L (split_rgb ?first) (N - 1) = Inr palette_img"
    and pne: "pim_palette palette_img \<noteq> []"
    unfolding quantizer_accepts_def by blast
  from contract pal have v0: "valid_indices palette_img (length (rgb_pixels (split_rgb ?first)))"
    and c0: "int (length (pim_palette palette_img)) \<le> N - 1"
    unfolding quantizer_contract_def by blast+
  from v0 have l0: "length (pim_data palette_img) = length (im_pixels ?first)"
    by (simp add: valid_indices_def split_rgb_def)
  from apply_transparency_succeeds [OF l0] obtain ref
    where ref: "apply_transparency N t ?first palette_img = Inr ref" by blast
  have refpal: "pim_palette ref = pim_palette palette_img"
    by (rule apply_transparency_spec(1) [OF ref])
  have each: "\<exists>q. lib_quantize_palette L (split_rgb g) ref = Inr q
               \<and> length (pim_data q) = length (im_pixels g)" for g
  proof -
    from accepts refpal pne obtain q where q: "lib_quantize_palette L (split_rgb g) ref = Inr q"
      unfolding quantizer_accepts_def by metis
    with contract have "valid_indices q (length (rgb_pixels (split_rgb g)))"
      unfolding quantizer_contract_def by blast
    then have "length (pim_data q) = length (im_pixels g)"
      by (simp add: valid_indices_def split_rgb_def)
    with q show ?thesis by blast
  qed
  then have "\<forall>g \<in> set ?rest. \<exists>q. lib_quantize_palette L (split_rgb g) ref = Inr q
               \<and> length (pim_data q) = length (im_pixels g)" by blast
  from quantize_rest_succeeds [OF this] obtain qs
    where qr: "quantize_rest L N t ref ?rest = Inr qs" by blast
  from qr have lq: "length qs = length ?rest"
    and nth: "\<forall>i < length ?rest. \<exists>q. lib_quantize_palette L (split_rgb (?rest ! i)) ref = Inr q
                              \<and> apply_transparency N t (?rest ! i) q = Inr (qs ! i)"
    unfolding quantize_rest_nth by simp_all
  have built: "build_pal_frames L a N t = Inr (ref # qs)"
    unfolding build_pal_frames_iff
    by (intro exI [of _ ?first] exI [of _ ?rest] exI [of _ palette_img] exI [of _ ref]
          exI [of _ qs]) (simp add: mp pal ref qr)
  have len: "length (ref # qs) = length (frames a)" using lq fr by simp
  have later: "\<exists>q. lib_quantize_palette L (split_rgb (processed_frame L (others ! i))) ref = Inr q
              \<and> apply_transparency N t (processed_frame L (others ! i)) q = Inr ((ref # qs) ! Suc i)"
    if "i < length others" for i
    using nth that by simp
  have pals: "pim_palette ((ref # qs) ! i) = pim_palette palette_img" if "i < length (ref # qs)" for i
  proof (cases i)
    case 0
    with refpal show ?thesis by simp
  next
    case (Suc j)
    with that lq have j: "j < length others" by simp
    from later [OF j] obtain q where q: "lib_quantize_palette L (split_rgb (processed_frame L (others ! j))) ref = Inr q"
      and ap: "apply_transparency N t (processed_frame L (others ! j)) q = Inr ((ref # qs) ! Suc j)"
      by blast
    from contract q have "pim_palette q = pim_palette ref"
      unfolding quantizer_contract_def by blast
    with apply_transparency_spec(1) [OF ap] refpal Suc show ?thesis by simp
  qed
  have "lib_quantize_colors L (split_rgb ?first) (N - 1) = Inr palette_img
          \<and> int (length (pim_palette palette_img)) \<le> N - 1
          \<and> build_pal_frames L a N t = Inr (ref # qs)
          \<and> length (ref # qs) = length (frames a)
          \<and> apply_transparency N t ?first palette_img = Inr ((ref # qs) ! 0)
          \<and> (\<forall>i < length (ref # qs). pim_palette ((ref # qs) ! i) = pim_palette palette_img)
          \<and> (\<forall>i < length others. \<exists>q.
                lib_quantize_palette L (split_rgb (processed_frame L (others ! i))) ((ref # qs) ! 0) = Inr q
              \<and> apply_transparency N t (processed_frame L (others ! i)) q = Inr ((ref # qs) ! Suc i))"
    using pal c0 built len ref pals later by simp
  then show "\<exists>palette_img pfs.
            lib_quantize_colors L
              \<lparr>rgb_size = im_size ?first,
               rgb_pixels = map (\<lambda>(r, g, b, a). (r, g, b)) (im_pixels ?first)\<rparr>
              (N - 1) = Inr palette_img
          \<and> int (length (pim_palette palette_img)) \<le> N - 1
          \<and> build_pal_frames L a N t = Inr pfs
          \<and> length pfs = length (frames a)
          \<and> apply_transparency N t ?first palette_img = Inr (pfs ! 0)
          \<and> (\<forall>i < length pfs. pim_palette (pfs ! i) = pim_palette palette_img)
          \<and> (\<forall>i < length others. \<exists>q.
                lib_quantize_palette L
                  \<lparr>rgb_size = im_size (processed_frame L (others ! i)),
                   rgb_pixels = map (\<lambda>(r, g, b, a). (r, g, b))
                                  (im_pixels (processed_frame L (others ! i)))\<rparr>
                  (pfs ! 0) = Inr q
              \<and> apply_transparency N t (processed_frame L (others ! i)) q = Inr (pfs ! Suc i))"
    unfolding split_rgb_def
    by (intro exI [of _ palette_img] exI [of _ "ref # qs"])
next
  show "\<forall>M e.
            lib_quantize_colors L
              \<lparr>rgb_size = im_size (processed_frame L frame0),
               rgb_pixels = map (\<lambda>(r, g, b, a). (r, g, b)) (im_pixels (processed_frame L frame0))\<rparr>
              (M - 1) = Inl e
            \<longrightarrow> build_pal_frames L a M t = Inl e"
    using fr by (simp add: build_pal_frames_def split_rgb_def)
qed

theorem shared_palette_from_first_frame_witness:
  "quantizer_contract demo_lib \<and> quantizer_accepts demo_lib
   \<and> (2::int) \<le> 2 \<and> (2::int) \<le> 256
   \<and> frames demo_animation = frame_a # [frame_b, frame_a, frame_b]
   \<and> (\<exists>palette_img pfs.
          lib_quantize_colors demo_lib
            \<lparr>rgb_size = im_size (processed_frame demo_lib frame_a),
             rgb_pixels = map (\<lambda>(r, g, b, a). (r, g, b))
                            (im_pixels (processed_frame demo_lib frame_a))\<rparr>
            (2 - 1) = Inr palette_img
        \<and> int (length (pim_palette palette_img)) \<le> 2 - 1
        \<and> build_pal_frames demo_lib demo_animation 2 10 = Inr pfs
        \<and> pfs = [\<lparr>pim_size = (2, 1), pim_palette = [(0, 0, 0)], pim_data = [0, 1]\<rparr>,
                  \<lparr>pim_size = (2, 1), pim_palette = [(0, 0, 0)], pim_data = [0, 1]\<rparr>,
                  \<lparr>pim_size = (2, 1), pim_palette = [(0, 0, 0)], pim_data = [0, 1]\<rparr>,
                  \<lparr>pim_size = (2, 1), pim_palette = [(0, 0, 0)], pim_data = [0, 1]\<rparr>]
        \<and> length pfs = length (frames demo_animation)
        \<and> list_all (\<lambda>p. pim_palette p = pim_palette palette_img) pfs)"
proof -
  have fr: "frames demo_animation = frame_a # [frame_b, frame_a, frame_b]"
    by (simp add: demo_animation_def)
  have two: "(2::int) \<le> 2" "(2::int) \<le> 256" by simp_all
  from shared_palette_from_first_frame [OF demo_lib_contract demo_lib_accepts two fr, of 10]
  obtain palette_img pfs where
    pal: "lib_quantize_colors demo_lib
            \<lparr>rgb_size = im_size (processed_frame demo_lib frame_a),
             rgb_pixels = map (\<lambda>(r, g, b, a). (r, g, b))
                            (im_pixels (processed_frame demo_lib frame_a))\<rparr>
            (2 - 1) = Inr palette_img"
    and cnt: "int (length (pim_palette palette_img)) \<le> 2 - 1"
    and built: "build_pal_frames demo_lib demo_animation 2 10 = Inr pfs"
    and len: "length pfs = length (frames demo_animation)"
    and pals: "\<forall>i < length pfs. pim_palette (pfs ! i) = pim_palette palette_img"
    by (elim conjE exE)
  from built demo_build_two have pfs:
    "pfs = [\<lparr>pim_size = (2, 1), pim_palette = [(0, 0, 0)], pim_data = [0, 1]\<rparr>,
            \<lparr>pim_size = (2, 1), pim_palette = [(0, 0, 0)], pim_data = [0, 1]\<rparr>,
            \<lparr>pim_size = (2, 1), pim_palette = [(0, 0, 0)], pim_data = [0, 1]\<rparr>,
            \<lparr>pim_size = (2, 1), pim_palette = [(0, 0, 0)], pim_data = [0, 1]\<rparr>]"
    by simp
  from pals have all: "list_all (\<lambda>p. pim_palette p = pim_palette palette_img) pfs"
    by (simp add: list_all_length)
  have "\<exists>palette_img pfs.
          lib_quantize_colors demo_lib
            \<lparr>rgb_size = im_size (processed_frame demo_lib frame_a),
             rgb_pixels = map (\<lambda>(r, g, b, a). (r, g, b))
                            (im_pixels (processed_frame demo_lib frame_a))\<rparr>
            (2 - 1) = Inr palette_img
        \<and> int (length (pim_palette palette_img)) \<le> 2 - 1
        \<and> build_pal_frames demo_lib demo_animation 2 10 = Inr pfs
        \<and> pfs = [\<lparr>pim_size = (2, 1), pim_palette = [(0, 0, 0)], pim_data = [0, 1]\<rparr>,
                  \<lparr>pim_size = (2, 1), pim_palette = [(0, 0, 0)], pim_data = [0, 1]\<rparr>,
                  \<lparr>pim_size = (2, 1), pim_palette = [(0, 0, 0)], pim_data = [0, 1]\<rparr>,
                  \<lparr>pim_size = (2, 1), pim_palette = [(0, 0, 0)], pim_data = [0, 1]\<rparr>]
        \<and> length pfs = length (frames demo_animation)
        \<and> list_all (\<lambda>p. pim_palette p = pim_palette palette_img) pfs"
    apply (rule exI [of _ palette_img])
    apply (rule exI [of _ pfs])
    apply (intro conjI pal cnt built pfs len all)
    done
  with demo_lib_contract demo_lib_accepts two fr show ?thesis by (intro conjI)
qed

text \<open>
  Claim C5 as stated fails at \<open>N = 1\<close>: the builder asks the quantizer for 0
  colours, the quantizer refuses, and the builder (and so \<^verbatim>\<open>save_as_gif\<close>) fails.
\<close>

theorem palette_size_one_refused:
  "build_pal_frames demo_lib demo_animation 1 10 = Inl EncodingFailure
   \<and> fst (save_as_gif demo_lib demo_animation demo_output 1 10 Map.empty) = Inl EncodingFailure"
  by code_simp

text \<open>
  Claim C8, as the code has it. The builder does not validate: with zero frames it
  stops at the read of the first frame with an index error, before quantizing or
  writing anything. The deliberate zero-frame check is in the loader, which rejects
  a decoded PNG with no frames as \<open>EmptyAnimation\<close>.
\<close>

theorem empty_animation_validated_by_loader:
  "save_as_gif L (animation\<lparr>frames := []\<rparr>) output_path colors alpha_threshold fs
     = (Inl IndexError, fs)
   \<and> load_animation L (img\<lparr>img_format := ''PNG'', img_sequence := []\<rparr>) = Inl EmptyAnimation"
  by (simp add: save_as_gif_def build_pal_frames_def load_animation_def)

text \<open>
  Claim C8 as stated fails: with zero frames the builder's error is the index
  error, not \<open>EmptyAnimation\<close>.
\<close>

theorem empty_animation_counterexample:
  "fst (save_as_gif demo_lib (demo_animation\<lparr>frames := [], durations := []\<rparr>) demo_output 256 10 Map.empty)
     = Inl IndexError
   \<and> fst (save_as_gif demo_lib (demo_animation\<lparr>frames := [], durations := []\<rparr>) demo_output 256 10 Map.empty)
     \<noteq> Inl EmptyAnimation"
  by (simp add: save_as_gif_def build_pal_frames_def)

section \<open>Properties of the size-constrained search\<close>

text \<open>
  Claim C7. When a canvas dimension is below the minimum resolution, the operation
  fails with \<open>ResolutionTooLow\<close>, whatever the imaging library is: the file
  system is returned as it was (no temporary artifact) and no candidate has been
  evaluated.
\<close>

theorem resolution_too_low_before_any_candidate:
  "fst (size_a animation) < min_resolution \<or> snd (size_a animation) < min_resolution \<Longrightarrow>
   compress_to_target_size L animation output_path target_size_bytes alpha_threshold
       min_resolution fs
     = (Inl ResolutionTooLow, fs, [])"
  by (simp add: compress_to_target_size_def)

theorem resolution_too_low_before_any_candidate_witness:
  "(fst (size_a (demo_animation\<lparr>size_a := (800, 800)\<rparr>)) < 1000
      \<or> snd (size_a (demo_animation\<lparr>size_a := (800, 800)\<rparr>)) < 1000)
   \<and> compress_to_target_size demo_lib (demo_animation\<lparr>size_a := (800, 800)\<rparr>) demo_output
        1000000 10 1000 Map.empty
     = (Inl ResolutionTooLow, Map.empty, [])"
  using resolution_too_low_before_any_candidate
          [of "demo_animation\<lparr>size_a := (800, 800)\<rparr>" 1000 demo_lib demo_output 1000000 10 Map.empty]
  by simp

subsection \<open>What one iteration does to the file system\<close>

lemma image_save_result:
  "image_save L job p fs = (r, fs1) \<Longrightarrow>
   (r = None \<and> (\<exists>b. fs1 = fs(p \<mapsto> b)))
   \<or> (r \<noteq> None \<and> (fs1 = fs \<or> (fs p \<noteq> None \<and> (\<exists>b. fs1 = fs(p \<mapsto> b)))))"
  by (auto simp: image_save_def split: write_outcome.splits if_splits)

lemma save_as_gif_result:
  assumes "save_as_gif L a p c t fs = (r, fs1)"
  shows "(\<exists>b. r = Inr (length b) \<and> fs1 = fs(p \<mapsto> b))
       \<or> (\<exists>e. r = Inl e \<and> (fs1 = fs \<or> (fs p \<noteq> None \<and> (\<exists>b. fs1 = fs(p \<mapsto> b)))))"
proof (cases "build_pal_frames L a c t")
  case (Inl e)
  with assms show ?thesis by (auto simp: save_as_gif_def)
next
  case (Inr pal_frames)
  show ?thesis
  proof (cases pal_frames)
    case Nil
    with Inr assms show ?thesis by (auto simp: save_as_gif_def)
  next
    case (Cons first rest)
    define job where "job = \<lparr>job_first = first, job_append_images = rest,
                        job_duration = durations a, job_loop = loop a,
                        job_disposal = 2, job_transparency = c - 1,
                        job_optimize = False\<rparr>"
    obtain w fs' where w: "image_save L job p fs = (w, fs')" by (cases "image_save L job p fs")
    from assms Inr Cons w have r: "(r, fs1) = (case w of Some e \<Rightarrow> (Inl e, fs') | None \<Rightarrow> (stat_size p fs', fs'))"
      by (simp add: save_as_gif_def job_def split: option.splits)
    from image_save_result [OF w] show ?thesis
    proof
      assume "w = None \<and> (\<exists>b. fs' = fs(p \<mapsto> b))"
      then obtain b where "w = None" "fs' = fs(p \<mapsto> b)" by blast
      with r have "r = Inr (length b)" "fs1 = fs(p \<mapsto> b)" by (simp_all add: stat_size_def)
      then show ?thesis by blast
    next
      assume "w \<noteq> None \<and> (fs' = fs \<or> (fs p \<noteq> None \<and> (\<exists>b. fs' = fs(p \<mapsto> b))))"
      then obtain e where "w = Some e"
        and "fs' = fs \<or> (fs p \<noteq> None \<and> (\<exists>b. fs' = fs(p \<mapsto> b)))" by auto
      with r show ?thesis by auto
    qed
  qed
qed

lemma evaluate_candidate_result:
  assumes "evaluate_candidate L a p t k c fs = (r, fs1)"
  shows "(\<exists>b. r = Inr (length b) \<and> fs1 = fs(p \<mapsto> b))
       \<or> (\<exists>e. r = Inl e \<and> (fs1 = fs \<or> (fs p \<noteq> None \<and> (\<exists>b. fs1 = fs(p \<mapsto> b)))))"
  using assms save_as_gif_result
  by (auto simp: evaluate_candidate_def split: sum.splits list.splits prod.splits if_splits)


subsection \<open>The four ways through the loop\<close>

text \<open>
  A property of the loop's result follows from four cases: the guard fails; the
  candidate's evaluation raises; the candidate fits and is promoted; the candidate
  is rejected, its file removed, and the loop continues from the next state.
\<close>

lemma search_loop_cases:
  fixes P :: "int \<Rightarrow> int \<Rightarrow> filesystem \<Rightarrow> attempt list
                \<Rightarrow> (error + path) \<times> filesystem \<times> attempt list \<Rightarrow> bool"
  assumes stop: "\<And>k c fs lg.
      \<not> (k \<le> int (length (frames a)) \<and> 64 \<le> c)
      \<Longrightarrow> P k c fs lg (Inl CompressionBudgetUnreachable, fs, lg)"
    and raise: "\<And>k c fs lg e fs1.
      k \<le> int (length (frames a)) \<Longrightarrow> 64 \<le> c
      \<Longrightarrow> evaluate_candidate L a (temp_path_of out k c) thr k c fs = (Inl e, fs1)
      \<Longrightarrow> fs1 = fs \<or> (fs (temp_path_of out k c) \<noteq> None
                     \<and> (\<exists>b. fs1 = fs(temp_path_of out k c \<mapsto> b)))
      \<Longrightarrow> P k c fs lg (Inl e, fs1, lg @ [(k, c, Inl e)])"
    and accept: "\<And>k c fs lg b.
      k \<le> int (length (frames a)) \<Longrightarrow> 64 \<le> c
      \<Longrightarrow> evaluate_candidate L a (temp_path_of out k c) thr k c fs
            = (Inr (length b), fs(temp_path_of out k c \<mapsto> b))
      \<Longrightarrow> int (length b) \<le> tg
      \<Longrightarrow> P k c fs lg
            (Inr out, (fs(temp_path_of out k c := None))(out \<mapsto> b),
             lg @ [(k, c, Inr (length b))])"
    and reject: "\<And>k c fs lg b res.
      k \<le> int (length (frames a)) \<Longrightarrow> 64 \<le> c
      \<Longrightarrow> evaluate_candidate L a (temp_path_of out k c) thr k c fs
            = (Inr (length b), fs(temp_path_of out k c \<mapsto> b))
      \<Longrightarrow> tg < int (length b)
      \<Longrightarrow> P (k + 1) (max 64 (c - 32)) (fs(temp_path_of out k c := None))
            (lg @ [(k, c, Inr (length b))]) res
      \<Longrightarrow> P k c fs lg res"
  shows "P k c fs lg (search_loop L a out tg thr k c fs lg)"
  using assms
proof (induction L a out tg thr k c fs lg rule: search_loop.induct)
  case (1 L a out tg thr k c fs lg)
  show ?case
  proof (cases "k \<le> int (length (frames a)) \<and> 64 \<le> c")
    case False
    have "search_loop L a out tg thr k c fs lg = (Inl CompressionBudgetUnreachable, fs, lg)"
      by (subst search_loop.simps) (simp only: False if_False)
    then show ?thesis by (simp only: "1.prems"(1) [OF False])
  next
    case True
    then have k: "k \<le> int (length (frames a))" and c: "64 \<le> c" by simp_all
    obtain r fs1 where ev: "evaluate_candidate L a (temp_path_of out k c) thr k c fs = (r, fs1)"
      by (cases "evaluate_candidate L a (temp_path_of out k c) thr k c fs")
    from evaluate_candidate_result [OF ev] consider
      (err) e where "r = Inl e"
        "fs1 = fs \<or> (fs (temp_path_of out k c) \<noteq> None
                   \<and> (\<exists>b. fs1 = fs(temp_path_of out k c \<mapsto> b)))"
      | (ok) b where "r = Inr (length b)" "fs1 = fs(temp_path_of out k c \<mapsto> b)"
      by auto
    then show ?thesis
    proof cases
      case (err e)
      then have r: "r = Inl e"
        and f: "fs1 = fs \<or> (fs (temp_path_of out k c) \<noteq> None
                         \<and> (\<exists>b. fs1 = fs(temp_path_of out k c \<mapsto> b)))" by simp_all
      from True ev r have "search_loop L a out tg thr k c fs lg = (Inl e, fs1, lg @ [(k, c, Inl e)])"
        by (subst search_loop.simps) simp
      then show ?thesis by (simp only: "1.prems"(2) [OF k c ev [unfolded r] f])
    next
      case (ok b)
      then have r: "r = Inr (length b)" and f: "fs1 = fs(temp_path_of out k c \<mapsto> b)"
        by simp_all
      note ev' = ev [unfolded r f]
      show ?thesis
      proof (cases "int (length b) \<le> tg")
        case le: True
        from True ev' le have
          "search_loop L a out tg thr k c fs lg
             = (Inr out, (fs(temp_path_of out k c := None))(out \<mapsto> b),
                lg @ [(k, c, Inr (length b))])"
          by (subst search_loop.simps) (simp add: path_replace_def)
        then show ?thesis by (simp only: "1.prems"(3) [OF k c ev' le])
      next
        case gt: False
        from True ev' gt have eq:
          "search_loop L a out tg thr k c fs lg
             = search_loop L a out tg thr (k + 1) (max 64 (c - 32))
                 (fs(temp_path_of out k c := None)) (lg @ [(k, c, Inr (length b))])"
          by (subst search_loop.simps) (simp add: path_unlink_def)
        have ul: "path_unlink (temp_path_of out k c) (fs(temp_path_of out k c \<mapsto> b))
                    = Inr (fs(temp_path_of out k c := None))"
          by (simp add: path_unlink_def)
        have gt': "tg < int (length b)" using gt by simp
        have step: "P (k + 1) (max 64 (c - 32)) (fs(temp_path_of out k c := None))
                (lg @ [(k, c, Inr (length b))])
                (search_loop L a out tg thr (k + 1) (max 64 (c - 32))
                   (fs(temp_path_of out k c := None)) (lg @ [(k, c, Inr (length b))]))"
          by (rule "1.IH" [OF True ev' [symmetric] refl gt ul]) (fact "1.prems")+
        have "P k c fs lg
                (search_loop L a out tg thr (k + 1) (max 64 (c - 32))
                   (fs(temp_path_of out k c := None)) (lg @ [(k, c, Inr (length b))]))"
          by (rule "1.prems"(4) [OF k c ev' gt' step])
        then show ?thesis by (simp only: eq)
      qed
    qed
  qed
qed

subsection \<open>Invariants of the loop\<close>

lemma schedule_colors: "0 \<le> j \<Longrightarrow> max 64 (max 64 (c - 32) - 32 * j) = max (64::int) (c - 32 * (j + 1))"
  by (simp add: max_def algebra_simps)

lemma search_loop_schedule:
  "64 \<le> c \<longrightarrow>
   (\<exists>new. snd (snd (search_loop L a out tg thr k c fs lg)) = lg @ new
      \<and> (\<forall>i < length new. fst (new ! i) = k + int i
                           \<and> fst (snd (new ! i)) = max 64 (c - 32 * int i))
      \<and> int (length new) \<le> max 0 (int (length (frames a)) + 1 - k)
      \<and> (list_all (over_budget tg) new \<longrightarrow>
            fst (search_loop L a out tg thr k c fs lg) = Inl CompressionBudgetUnreachable
          \<and> int (length new) = max 0 (int (length (frames a)) + 1 - k)))"
proof (rule search_loop_cases [of a
    "\<lambda>k c fs lg res. 64 \<le> c \<longrightarrow>
       (\<exists>new. snd (snd res) = lg @ new
          \<and> (\<forall>i < length new. fst (new ! i) = k + int i
                               \<and> fst (snd (new ! i)) = max 64 (c - 32 * int i))
          \<and> int (length new) \<le> max 0 (int (length (frames a)) + 1 - k)
          \<and> (list_all (over_budget tg) new \<longrightarrow>
                fst res = Inl CompressionBudgetUnreachable
              \<and> int (length new) = max 0 (int (length (frames a)) + 1 - k)))"
    L out thr tg], goal_cases)
  case (1 k c fs lg)
  then show ?case by auto
next
  case (2 k c fs lg e fs1)
  then show ?case by (auto simp: over_budget_def)
next
  case (3 k c fs lg b)
  then show ?case by (auto simp: over_budget_def)
next
  case (4 k c fs lg b res)
  show ?case
  proof
    assume c: "64 \<le> c"
    from 4(5) obtain new where tr: "snd (snd res) = (lg @ [(k, c, Inr (length b))]) @ new"
      and sched: "\<forall>i < length new. fst (new ! i) = k + 1 + int i
                           \<and> fst (snd (new ! i)) = max 64 (max 64 (c - 32) - 32 * int i)"
      and len: "int (length new) \<le> max 0 (int (length (frames a)) + 1 - (k + 1))"
      and exh: "list_all (over_budget tg) new \<longrightarrow>
            fst res = Inl CompressionBudgetUnreachable
          \<and> int (length new) = max 0 (int (length (frames a)) + 1 - (k + 1))"
      by auto
    let ?new = "(k, c, Inr (length b)) # new"
    have 1: "snd (snd res) = lg @ ?new" using tr by simp
    have 2: "fst (?new ! i) = k + int i \<and> fst (snd (?new ! i)) = max 64 (c - 32 * int i)"
      if "i < length ?new" for i
    proof (cases i)
      case 0
      with c show ?thesis by simp
    next
      case (Suc j)
      with that have "j < length new" by simp
      with sched have "fst (new ! j) = k + 1 + int j"
        and "fst (snd (new ! j)) = max 64 (max 64 (c - 32) - 32 * int j)" by simp_all
      with Suc schedule_colors [of "int j" c] show ?thesis by (simp add: algebra_simps)
    qed
    have 3: "int (length ?new) \<le> max 0 (int (length (frames a)) + 1 - k)"
      using len 4(1) by simp
    have 4: "list_all (over_budget tg) ?new \<longrightarrow>
            fst res = Inl CompressionBudgetUnreachable
          \<and> int (length ?new) = max 0 (int (length (frames a)) + 1 - k)"
      using exh 4(1) by simp
    from 1 2 3 4 show "\<exists>new. snd (snd res) = lg @ new
      \<and> (\<forall>i < length new. fst (new ! i) = k + int i
                           \<and> fst (snd (new ! i)) = max 64 (c - 32 * int i))
      \<and> int (length new) \<le> max 0 (int (length (frames a)) + 1 - k)
      \<and> (list_all (over_budget tg) new \<longrightarrow>
            fst res = Inl CompressionBudgetUnreachable
          \<and> int (length new) = max 0 (int (length (frames a)) + 1 - k))"
      by (intro exI [of _ ?new]) blast
  qed
qed



subsection \<open>Runs on concrete inputs\<close>


lemma demo_run_exhausted:
  "fst (compress_to_target_size demo_lib demo_animation demo_output 50 10 1 Map.empty)
       = Inl CompressionBudgetUnreachable
   \<and> snd (snd (compress_to_target_size demo_lib demo_animation demo_output 50 10 1 Map.empty))
       = [(1, 256, Inr 400), (2, 224, Inr 200), (3, 192, Inr 200), (4, 160, Inr 100)]"
  by code_simp

lemma compress_run:
  assumes "min_resolution \<le> fst (size_a animation)" "min_resolution \<le> snd (size_a animation)"
    and "compress_to_target_size L animation output_path target_size_bytes alpha_threshold
           min_resolution fs = (r, fs', tr)"
  shows "search_loop L animation output_path target_size_bytes alpha_threshold 1 256 fs []
           = (r, fs', tr)"
  using assms by (simp add: compress_to_target_size_def)

subsection \<open>The claims about the search\<close>



text \<open>
  Claim C2. When the resolution check passes, the \<open>i\<close>-th candidate evaluated
  (counting from 0, that is after \<open>i\<close> rejected attempts) has skip factor \<open>1 + i\<close>
  and palette size \<open>max 64 (256 - 32 * i)\<close>; every candidate evaluated has a skip
  factor of at most \<open>frame_count\<close> and a palette size of at least 64; and when
  every evaluated candidate exceeds the budget, the search fails with
  \<open>CompressionBudgetUnreachable\<close> after exactly \<open>frame_count\<close> candidates.
\<close>

theorem search_schedule:
  assumes w: "min_resolution \<le> fst (size_a animation)"
    and h: "min_resolution \<le> snd (size_a animation)"
    and run: "compress_to_target_size L animation output_path target_size_bytes alpha_threshold
                min_resolution fs = (r, fs', tr)"
  shows "(\<forall>i < length tr.
            fst (tr ! i) = 1 + int i
          \<and> fst (snd (tr ! i)) = max 64 (256 - 32 * int i)
          \<and> fst (tr ! i) \<le> int (length (frames animation))
          \<and> 64 \<le> fst (snd (tr ! i)))
       \<and> length tr \<le> length (frames animation)
       \<and> (list_all (over_budget target_size_bytes) tr \<longrightarrow>
            r = Inl CompressionBudgetUnreachable \<and> length tr = length (frames animation))"
proof -
  note loop = compress_run [OF w h run]
  from search_loop_schedule [of 256 L animation output_path target_size_bytes alpha_threshold 1 fs "[]"]
  have len: "int (length tr) \<le> max 0 (int (length (frames animation)))"
    and sched: "\<forall>i < length tr. fst (tr ! i) = 1 + int i
                          \<and> fst (snd (tr ! i)) = max 64 (256 - 32 * int i)"
    and exh: "list_all (over_budget target_size_bytes) tr \<longrightarrow>
                r = Inl CompressionBudgetUnreachable
              \<and> int (length tr) = max 0 (int (length (frames animation)))"
    unfolding loop by simp_all
  from len have len': "length tr \<le> length (frames animation)" by simp
  have "fst (tr ! i) = 1 + int i
          \<and> fst (snd (tr ! i)) = max 64 (256 - 32 * int i)
          \<and> fst (tr ! i) \<le> int (length (frames animation))
          \<and> 64 \<le> fst (snd (tr ! i))" if "i < length tr" for i
    using that sched len' by simp
  moreover from exh have "list_all (over_budget target_size_bytes) tr \<longrightarrow>
            r = Inl CompressionBudgetUnreachable \<and> length tr = length (frames animation)"
    by simp
  ultimately show ?thesis using len' by blast
qed

theorem search_schedule_witness:
  "(1::int) \<le> fst (size_a demo_animation) \<and> (1::int) \<le> snd (size_a demo_animation)
   \<and> (\<exists>r fs' tr.
         compress_to_target_size demo_lib demo_animation demo_output 50 10 1 Map.empty = (r, fs', tr)
       \<and> tr = [(1, 256, Inr 400), (2, 224, Inr 200), (3, 192, Inr 200), (4, 160, Inr 100)]
       \<and> list_all (over_budget 50) tr
       \<and> r = Inl CompressionBudgetUnreachable
       \<and> length tr = length (frames demo_animation))"
proof -
  let ?res = "compress_to_target_size demo_lib demo_animation demo_output 50 10 1 Map.empty"
  have run: "?res = (fst ?res, fst (snd ?res), snd (snd ?res))" by simp
  have w: "(1::int) \<le> fst (size_a demo_animation)" and h: "(1::int) \<le> snd (size_a demo_animation)"
    by (simp_all add: demo_animation_def)
  note t = search_schedule [OF w h run]
  from demo_run_exhausted
  have tr: "snd (snd ?res) = [(1, 256, Inr 400), (2, 224, Inr 200), (3, 192, Inr 200), (4, 160, Inr 100)]"
    by simp
  have ob: "list_all (over_budget 50) (snd (snd ?res))"
    unfolding tr by (simp add: over_budget_def)
  from t ob have r: "fst ?res = Inl CompressionBudgetUnreachable"
    and len: "length (snd (snd ?res)) = length (frames demo_animation)"
    by blast+
  have "\<exists>r fs' tr.
         ?res = (r, fs', tr)
       \<and> tr = [(1, 256, Inr 400), (2, 224, Inr 200), (3, 192, Inr 200), (4, 160, Inr 100)]
       \<and> list_all (over_budget 50) tr
       \<and> r = Inl CompressionBudgetUnreachable
       \<and> length tr = length (frames demo_animation)"
    apply (rule exI [of _ "fst ?res"])
    apply (rule exI [of _ "fst (snd ?res)"])
    apply (rule exI [of _ "snd (snd ?res)"])
    apply (intro conjI run tr ob r len)
    done
  with w h show ?thesis by (intro conjI)
qed





end
